theory Spec2Isabelle
  imports Main
begin

section \<open>Values, text and the numeric coercion \<open>as_int\<close>\<close>

text \<open>
  The program of \<^verbatim>\<open>parser.py\<close> reads a spreadsheet, turns every data cell into a
  record and stores the records in a relational table. This theory embeds the program
  function by function. Library calls (the regular expression of \<open>as_int\<close>, Python's
  \<open>int\<close> and \<open>str\<close>, the worksheet object, the database connection) are embedded by
  what they return on the inputs the program gives them; each such definition says which
  call it stands for.

  Text is \<open>string\<close>; a character is a code point below 256, so the embedding covers
  Latin-1 text. A cell value is absent (\<open>None\<close>), an integer or a text; floating-point
  and date cells are outside the embedding.
\<close>

datatype pyval = PNone | PInt int | PStr string

datatype py_error = TypeError | ValueError | OverflowError | DatabaseError

definition is_digit :: "char \<Rightarrow> bool" where
  "is_digit c = (c \<in> set ''0123456789'')"

definition digit_val :: "char \<Rightarrow> nat" where
  "digit_val c = of_char c - 48"

definition digit_char :: "nat \<Rightarrow> char" where
  "digit_char d = ''0123456789'' ! d"

text \<open>Decimal text of a natural number, most significant digit first.\<close>

fun str_nat :: "nat \<Rightarrow> string" where
  "str_nat n = (if n < 10 then [digit_char n] else str_nat (n div 10) @ [digit_char (n mod 10)])"

declare str_nat.simps [simp del]

text \<open>\<open>str(value)\<close> for the three kinds of value.\<close>

fun py_str :: "pyval \<Rightarrow> string" where
  "py_str PNone = ''None''"
| "py_str (PInt i) = (if i < 0 then CHR ''-'' # str_nat (nat (- i)) else str_nat (nat i))"
| "py_str (PStr s) = s"

text \<open>
  The value of a run of decimal digits, as \<open>int\<close> reads it: underscores between digits
  are skipped.
\<close>

definition digits_value :: "string \<Rightarrow> nat" where
  "digits_value ds = foldl (\<lambda>acc c. acc * 10 + digit_val c) 0 (filter is_digit ds)"

text \<open>
  The pattern \<^verbatim>\<open>.*?(\d+)$\<close> tried at the start of a text. \<^verbatim>\<open>\d+$\<close> matches where a
  non-empty run of digits is followed by the end of the text or by one final line feed;
  the lazy \<^verbatim>\<open>.*?\<close> moves one character to the right when that fails, and cannot step
  over a line feed. The result is group 1 and the text after the match.
\<close>

fun re_match :: "string \<Rightarrow> (string \<times> string) option" where
  "re_match [] = None"
| "re_match (c # cs) =
     (let d = takeWhile is_digit (c # cs); r = dropWhile is_digit (c # cs)
      in if d \<noteq> [] \<and> (r = [] \<or> r = [CHR 0x0A]) then Some (d, r)
         else if c = CHR 0x0A then None
         else re_match cs)"

lemma re_match_shorter: "re_match t = Some (d, r) \<Longrightarrow> length r < length t"
proof (induction t)
  case Nil
  then show ?case by simp
next
  case (Cons c cs)
  show ?case
  proof (cases "takeWhile is_digit (c # cs) \<noteq> [] \<and>
      (dropWhile is_digit (c # cs) = [] \<or> dropWhile is_digit (c # cs) = [CHR 0x0A])")
    case True
    with Cons.prems have d: "d = takeWhile is_digit (c # cs)" and r: "r = dropWhile is_digit (c # cs)"
      by (simp_all add: Let_def)
    have "length d + length r = length (c # cs)"
      unfolding d r by (metis length_append takeWhile_dropWhile_id)
    moreover from True d have "d \<noteq> []" by simp
    ultimately show ?thesis by (cases d) auto
  next
    case False
    with Cons.prems have "re_match cs = Some (d, r)"
      by (simp add: Let_def split: if_splits)
    with Cons.IH show ?thesis by fastforce
  qed
qed

text \<open>
  \<open>re.sub\<close> with that pattern and the replacement \<^verbatim>\<open>\1\<close>: the text is scanned from
  the left; a match is replaced by its group 1 and the scan goes on behind it, a position
  with no match keeps its character.
\<close>

function re_sub :: "string \<Rightarrow> string" where
  "re_sub [] = []"
| "re_sub (c # cs) =
     (case re_match (c # cs) of
        Some (d, r) \<Rightarrow> d @ re_sub r
      | None \<Rightarrow> c # re_sub cs)"
  by pat_completeness auto
termination
  by (relation "measure length") (auto dest: re_match_shorter simp del: re_match.simps)

text \<open>
  \<open>int(text)\<close> in base 10. White space around the number is dropped (for Latin-1 text:
  tab, line feed, vertical tab, form feed, carriage return, space, next line and no-break
  space); one sign may come first; the digits may be separated by single underscores; a
  number of more than 4300 digits is refused by the interpreter's conversion limit.
  Anything else is a \<open>ValueError\<close>.
\<close>

definition is_space :: "char \<Rightarrow> bool" where
  "is_space c = (c \<in> set [CHR 0x09, CHR 0x0A, CHR 0x0B, CHR 0x0C, CHR 0x0D, CHR 0x20,
     CHR 0x85, CHR 0xA0])"

definition strip :: "string \<Rightarrow> string" where
  "strip s = rev (dropWhile is_space (rev (dropWhile is_space s)))"

fun int_body_ok :: "string \<Rightarrow> bool" where
  "int_body_ok [] = False"
| "int_body_ok [c] = is_digit c"
| "int_body_ok (c # d # cs) =
     (is_digit c \<and> (if d = CHR ''_'' then int_body_ok cs else int_body_ok (d # cs)))"

definition int_max_str_digits :: nat where
  "int_max_str_digits = 4300"

definition py_int :: "string \<Rightarrow> py_error + int" where
  "py_int s =
     (let t = strip s;
          neg = (t \<noteq> [] \<and> hd t = CHR ''-'');
          body = (if t \<noteq> [] \<and> (hd t = CHR ''-'' \<or> hd t = CHR ''+'') then tl t else t)
      in if int_body_ok body \<and> length (filter is_digit body) \<le> int_max_str_digits
         then Inr (if neg then - int (digits_value body) else int (digits_value body))
         else Inl ValueError)"

text \<open>
  \<^verbatim>\<open>
  def as_int(value) -> int:
      try:
          return int(re.sub(r'.*?(\d+)$', r'\1', str(value)))
      except (TypeError, ValueError):
          return 0
  \<close>
\<close>

definition as_int :: "pyval \<Rightarrow> int" where
  "as_int v = (case py_int (re_sub (py_str v)) of Inr n \<Rightarrow> n | Inl e \<Rightarrow> 0)"

section \<open>The worksheet and the extractor \<open>SheetParser\<close>\<close>

text \<open>
  The worksheet object of the spreadsheet library, as far as the program reads it:
  \<^item> \<open>cell_value s row col\<close> is \<open>sheet.cell(row, col).value\<close>, \<open>PNone\<close> for a blank cell
    (a cell inside a merged region that is not the region's anchor is blank);
  \<^item> \<open>merged_ranges s\<close> is \<open>sheet.merged_cells.ranges\<close>, each range with its four
    boundaries;
  \<^item> \<open>sheet_max_row s\<close> and \<open>sheet_max_column s\<close> are the properties \<open>sheet.max_row\<close> and
    \<open>sheet.max_column\<close>.
  Rows and columns count from 1. A column is identified by its index; the column letters
  of the source (\<open>'B'\<close>, \<open>'C'\<close>) name the same columns, and \<open>column_index_from_string\<close>
  gives the index of a name written in capital letters. Reading a cell does not change
  what any later read of the same pass returns, so the sheet is not threaded through the
  functions as a state.
\<close>

record cell_range =
  min_col :: nat
  min_row :: nat
  max_col :: nat
  max_row :: nat

record worksheet =
  cell_value :: "nat \<Rightarrow> nat \<Rightarrow> pyval"
  merged_ranges :: "cell_range list"
  sheet_max_row :: nat
  sheet_max_column :: nat

definition column_index_from_string :: "string \<Rightarrow> nat" where
  "column_index_from_string name = foldl (\<lambda>acc c. acc * 26 + (of_char c - 64)) 0 name"

text \<open>\<open>coordinate in merged_range\<close>: the cell lies within the four boundaries.\<close>

definition in_range :: "cell_range \<Rightarrow> nat \<Rightarrow> nat \<Rightarrow> bool" where
  "in_range mr row col =
     (min_row mr \<le> row \<and> row \<le> max_row mr \<and> min_col mr \<le> col \<and> col \<le> max_col mr)"

text \<open>
  The extractor holds the sheet and \<open>max_column\<close>, the name of a column or \<open>None\<close>;
  \<open>Some n\<close> stands for the letters of column \<open>n\<close>.
\<close>

record sheet_parser =
  sheet :: worksheet
  max_column :: "nat option"

text \<open>
  \<^verbatim>\<open>
  def is_merged(self, cell) -> bool:
      for merged_range in self.sheet.merged_cells.ranges:
          if cell.coordinate in merged_range:
              return True
      return False
  \<close>
\<close>

fun is_merged_in :: "cell_range list \<Rightarrow> nat \<Rightarrow> nat \<Rightarrow> bool" where
  "is_merged_in [] row col = False"
| "is_merged_in (mr # mrs) row col =
     (if in_range mr row col then True else is_merged_in mrs row col)"

definition is_merged :: "worksheet \<Rightarrow> nat \<Rightarrow> nat \<Rightarrow> bool" where
  "is_merged s row col = is_merged_in (merged_ranges s) row col"

text \<open>
  \<^verbatim>\<open>
  self.max_column = None
  for i in range(0, self.sheet.max_column):
      cell = self.sheet.cell(1, i + 1)
      if cell.value is None and not self.is_merged(cell):
          break
      self.max_column = re.sub(r'^(\w+)\d+$', r'\1', cell.coordinate)
  \<close>
  The coordinate of a cell of row 1 is its column letters followed by \<open>1\<close>, and the
  substitution leaves the column letters. \<open>scan_header\<close> is the loop over the values of
  \<open>i\<close> that are left, with the value \<open>max_column\<close> has so far.
\<close>

fun scan_header :: "worksheet \<Rightarrow> nat list \<Rightarrow> nat option \<Rightarrow> nat option" where
  "scan_header s [] mc = mc"
| "scan_header s (i # rest) mc =
     (if cell_value s 1 (i + 1) = PNone \<and> \<not> is_merged s 1 (i + 1) then mc
      else scan_header s rest (Some (i + 1)))"

definition init :: "worksheet \<Rightarrow> sheet_parser" where
  "init s = \<lparr>sheet = s, max_column = scan_header s [0..<sheet_max_column s] None\<rparr>"

text \<open>
  \<open>str.lower\<close> on Latin-1 text: the capital letters \<open>A\<close> to \<open>Z\<close> and the accented
  capitals (code points 192 to 222 but for the multiplication sign 215) move up by 32.
\<close>

definition lower_char :: "char \<Rightarrow> char" where
  "lower_char c =
     (let n = (of_char c :: nat)
      in if (65 \<le> n \<and> n \<le> 90) \<or> (192 \<le> n \<and> n \<le> 222 \<and> n \<noteq> 215) then char_of (n + 32) else c)"

definition lower :: "string \<Rightarrow> string" where
  "lower s = map lower_char s"

text \<open>
  \<^verbatim>\<open>
  def get_cell_value(self, row: int, col: int, default: str | None) -> str | None:
      cell = self.sheet.cell(row, col)
      return default if cell.value is None and self.is_merged(cell) \
          else str(cell.value).lower()
  \<close>
\<close>

definition get_cell_value :: "sheet_parser \<Rightarrow> nat \<Rightarrow> nat \<Rightarrow> pyval \<Rightarrow> pyval" where
  "get_cell_value p row col default_value =
     (if cell_value (sheet p) row col = PNone \<and> is_merged (sheet p) row col then default_value
      else PStr (lower (py_str (cell_value (sheet p) row col))))"

text \<open>
  A date is its proleptic Gregorian ordinal (day 1 is 0001-01-01, the last day
  9999-12-31 is 3652059). \<open>today + datetime.timedelta(days=n)\<close> raises \<open>OverflowError\<close>
  when \<open>n\<close> is beyond 999999999 days either way or the sum is no date.
\<close>

type_synonym pydate = int

definition max_ordinal :: int where
  "max_ordinal = 3652059"

definition date_add :: "pydate \<Rightarrow> int \<Rightarrow> py_error + pydate" where
  "date_add today n =
     (if n < - 999999999 \<or> 999999999 < n then Inl OverflowError
      else if 0 < today + n \<and> today + n \<le> max_ordinal then Inr (today + n)
      else Inl OverflowError)"

text \<open>The record the extractor yields: type, name, date, value, company identifier.\<close>

type_synonym data_tuple = "pyval \<times> pyval \<times> pydate \<times> int \<times> int"

text \<open>
  \<open>self.sheet[start:end]\<close>: the cells of the rows \<open>r1\<close> to \<open>r2\<close> and the columns \<open>c1\<close> to
  \<open>c2\<close>, row by row, each row from left to right; empty when a bound lies below its
  start.
\<close>

definition region :: "nat \<Rightarrow> nat \<Rightarrow> nat \<Rightarrow> nat \<Rightarrow> (nat \<times> nat) list" where
  "region r1 c1 r2 c2 = concat (map (\<lambda>r. map (\<lambda>c. (r, c)) [c1..<Suc c2]) [r1..<Suc r2])"

text \<open>
  \<^verbatim>\<open>
  for row in self.sheet[start:end]:
      for cell in row:
          type = self.get_cell_value(type_row, cell.column, type)
          name = self.get_cell_value(name_row, cell.column, name)
          date = self.get_cell_value(date_row, cell.column, date)
          ccell = self.sheet[self.__coord(cell.row, company_col)]
          yield (
              type,
              name,
              today + datetime.timedelta(days=as_int(date)),
              as_int(cell.value),
              as_int(ccell.value),
          )
  \<close>
  \<open>iter_cells\<close> is the loop over the cells that are left, with the carried \<open>type\<close>,
  \<open>name\<close> and \<open>date\<close>. It returns the records yielded and the exception that ended the
  iteration, if one did.
\<close>

fun iter_cells :: "sheet_parser \<Rightarrow> pydate \<Rightarrow> nat \<Rightarrow> nat \<Rightarrow> nat \<Rightarrow> nat \<Rightarrow>
    pyval \<times> pyval \<times> pyval \<Rightarrow> (nat \<times> nat) list \<Rightarrow> data_tuple list \<times> py_error option" where
  "iter_cells p today type_row name_row date_row company_col carried [] = ([], None)"
| "iter_cells p today type_row name_row date_row company_col (type, name, date) ((row, col) # cells) =
     (let type' = get_cell_value p type_row col type;
          name' = get_cell_value p name_row col name;
          date' = get_cell_value p date_row col date
      in case date_add today (as_int date') of
           Inl e \<Rightarrow> ([], Some e)
         | Inr d \<Rightarrow>
             (let rest = iter_cells p today type_row name_row date_row company_col
                           (type', name', date') cells
              in ((type', name', d, as_int (cell_value (sheet p) row col),
                   as_int (cell_value (sheet p) row company_col)) # fst rest, snd rest)))"

text \<open>
  \<^verbatim>\<open>
  def iter(self, start_row=4, start_col='C', type_row=1, name_row=2, date_row=3,
           company_col='B'):
      start = self.__coord(start_row, start_col)
      end = self.__coord(self.sheet.max_row, self.max_column)
      type = name = date = None
      today = datetime.date.today()
      ...
  \<close>
  \<open>__coord(row, col)\<close> is \<open>col + str(row)\<close>, a \<open>TypeError\<close> when \<open>col\<close> is \<open>None\<close>.
  \<open>today\<close> is a parameter of the embedding.
\<close>

definition iter :: "sheet_parser \<Rightarrow> pydate \<Rightarrow> nat \<Rightarrow> nat \<Rightarrow> nat \<Rightarrow> nat \<Rightarrow> nat \<Rightarrow> nat \<Rightarrow>
    data_tuple list \<times> py_error option" where
  "iter p today start_row start_col type_row name_row date_row company_col =
     (case max_column p of
        None \<Rightarrow> ([], Some TypeError)
      | Some end_col \<Rightarrow>
          iter_cells p today type_row name_row date_row company_col (PNone, PNone, PNone)
            (region start_row start_col (sheet_max_row (sheet p)) end_col))"

definition iter_default :: "sheet_parser \<Rightarrow> pydate \<Rightarrow> data_tuple list \<times> py_error option" where
  "iter_default p today =
     iter p today 4 (column_index_from_string ''C'') 1 2 3 (column_index_from_string ''B'')"

subsection \<open>Names for stating the properties of the extractor\<close>

text \<open>The five components of a record.\<close>

definition record_type :: "data_tuple \<Rightarrow> pyval" where
  "record_type r = fst r"

definition record_name :: "data_tuple \<Rightarrow> pyval" where
  "record_name r = fst (snd r)"

definition record_date :: "data_tuple \<Rightarrow> pydate" where
  "record_date r = fst (snd (snd r))"

definition record_value :: "data_tuple \<Rightarrow> int" where
  "record_value r = fst (snd (snd (snd r)))"

definition record_company_id :: "data_tuple \<Rightarrow> int" where
  "record_company_id r = snd (snd (snd (snd r)))"

text \<open>The header part of a record: type, name and date.\<close>

definition header_fields :: "data_tuple \<Rightarrow> pyval \<times> pyval \<times> pydate" where
  "header_fields r = (record_type r, record_name r, record_date r)"

text \<open>
  The header values of one header row \<open>h\<close> along a list of columns, as the loop of \<open>iter\<close>
  carries them: each is \<open>get_cell_value\<close> of the header cell with the value before it as
  the default.
\<close>

fun carried_headers :: "sheet_parser \<Rightarrow> nat \<Rightarrow> pyval \<Rightarrow> nat list \<Rightarrow> pyval list" where
  "carried_headers p h d [] = []"
| "carried_headers p h d (c # cs) =
     get_cell_value p h c d # carried_headers p h (get_cell_value p h c d) cs"

text \<open>
  A cell of row 1 stops the scan of the constructor when it is blank and in no merged
  region. \<open>scanned\<close> is the number of columns the scan passes before it stops.
\<close>

definition scan_stops :: "worksheet \<Rightarrow> nat \<Rightarrow> bool" where
  "scan_stops s col = (cell_value s 1 col = PNone \<and> \<not> is_merged s 1 col)"

definition scanned :: "worksheet \<Rightarrow> nat" where
  "scanned s = length (takeWhile (\<lambda>i. \<not> scan_stops s (i + 1)) [0..<sheet_max_column s])"

text \<open>A sheet that differs from \<open>s\<close> in the value of one cell.\<close>

definition set_cell_value :: "worksheet \<Rightarrow> nat \<Rightarrow> nat \<Rightarrow> pyval \<Rightarrow> worksheet" where
  "set_cell_value s row col v =
     s\<lparr>cell_value := (\<lambda>r c. if r = row \<and> c = col then v else cell_value s r c)\<rparr>"

subsection \<open>Example sheets\<close>

text \<open>A sheet given by the cells that have a value; every other cell is blank.\<close>

definition cells_of :: "((nat \<times> nat) \<times> pyval) list \<Rightarrow> nat \<Rightarrow> nat \<Rightarrow> pyval" where
  "cells_of entries row col = (case map_of entries (row, col) of None \<Rightarrow> PNone | Some v \<Rightarrow> v)"

text \<open>
  Row 1 holds \<open>id\<close>, \<open>company\<close> and \<open>Revenue\<close> in the columns A to C, nothing in D and
  \<open>cost\<close> in E; the header rows 2 and 3 are blank; row 4 holds the data.
\<close>

definition boundary_sheet :: worksheet where
  "boundary_sheet = \<lparr>cell_value = cells_of
       [((1, 1), PStr ''id''), ((1, 2), PStr ''company''), ((1, 3), PStr ''Revenue''),
        ((1, 5), PStr ''cost''),
        ((4, 2), PInt 7), ((4, 3), PInt 100), ((4, 4), PInt 200), ((4, 5), PInt 300)],
     merged_ranges = [], sheet_max_row = 4, sheet_max_column = 5\<rparr>"

text \<open>
  The header \<open>company\<close> of row 1 is merged over the columns B and C, so that the first
  data column C lies in a merged region whose anchor is left of it; D holds \<open>cost\<close>.
  Rows 4 and 5 hold the data.
\<close>

definition carry_sheet :: worksheet where
  "carry_sheet = \<lparr>cell_value = cells_of
       [((1, 1), PStr ''id''), ((1, 2), PStr ''company''), ((1, 4), PStr ''cost''),
        ((4, 2), PInt 7), ((4, 3), PInt 1), ((4, 4), PInt 2),
        ((5, 2), PInt 8), ((5, 3), PInt 3), ((5, 4), PInt 4)],
     merged_ranges = [\<lparr>min_col = 2, min_row = 1, max_col = 3, max_row = 1\<rparr>],
     sheet_max_row = 5, sheet_max_column = 4\<rparr>"

text \<open>
  The sheet of the end-to-end scenario with the columns A and B of row 1 labelled:
  \<open>revenue\<close> merged over C and D in row 1, \<open>sales\<close> in row 2, \<open>10\<close> in row 3, and the data
  row 4 with the company 7 and the values 100 and 200.
\<close>

definition labelled_sheet :: worksheet where
  "labelled_sheet = \<lparr>cell_value = cells_of
       [((1, 1), PStr ''id''), ((1, 2), PStr ''company''), ((1, 3), PStr ''revenue''),
        ((2, 3), PStr ''sales''), ((2, 4), PStr ''sales''),
        ((3, 3), PStr ''10''), ((3, 4), PStr ''10''),
        ((4, 2), PStr ''7''), ((4, 3), PStr ''100''), ((4, 4), PStr ''200'')],
     merged_ranges = [\<lparr>min_col = 3, min_row = 1, max_col = 4, max_row = 1\<rparr>],
     sheet_max_row = 4, sheet_max_column = 4\<rparr>"

section \<open>The words of the specification\<close>

text \<open>
  The specification's words for \<open>as_int\<close>, "the trailing run of decimal digits of the
  value's string form": the longest run of digits that ends the text.
\<close>

definition trailing_digits :: "string \<Rightarrow> string" where
  "trailing_digits s = rev (takeWhile is_digit (rev s))"

text \<open>A new, empty worksheet: no cell has a value, both dimensions are 1.\<close>

definition empty_sheet :: worksheet where
  "empty_sheet = \<lparr>cell_value = (\<lambda>row col. PNone), merged_ranges = [],
     sheet_max_row = 1, sheet_max_column = 1\<rparr>"

section \<open>Properties of the numeric coercion\<close>



lemma trailing_digits_Cons:
  "trailing_digits (c # cs) =
     (if (\<forall>x \<in> set (c # cs). is_digit x) then c # cs else trailing_digits cs)"
proof (cases "\<forall>x \<in> set cs. is_digit x")
  case True
  then have "takeWhile is_digit (rev cs @ [c]) = rev cs @ takeWhile is_digit [c]"
    by (intro takeWhile_append2) simp
  moreover from True have "rev (takeWhile is_digit (rev cs)) = cs"
    by (simp add: takeWhile_eq_all_conv [THEN iffD2])
  ultimately show ?thesis using True by (simp add: trailing_digits_def)
next
  case False
  then obtain x where "x \<in> set (rev cs)" "\<not> is_digit x" by auto
  then have "takeWhile is_digit (rev cs @ [c]) = takeWhile is_digit (rev cs)"
    by (rule takeWhile_append1)
  with False show ?thesis by (auto simp: trailing_digits_def)
qed

lemma trailing_digits_all: "\<forall>x \<in> set (trailing_digits s). is_digit x"
  unfolding trailing_digits_def by (auto dest: set_takeWhileD)

lemma trailing_digits_Nil_iff: "trailing_digits s = [] \<longleftrightarrow> s = [] \<or> \<not> is_digit (last s)"
  by (cases s rule: rev_cases) (simp_all add: trailing_digits_def)

lemma re_match_no_newline:
  "CHR 0x0A \<notin> set s \<Longrightarrow>
   re_match s = (if trailing_digits s = [] then None else Some (trailing_digits s, []))"
proof (induction s)
  case Nil
  then show ?case by (simp add: trailing_digits_def)
next
  case (Cons c cs)
  have nl: "dropWhile is_digit (c # cs) \<noteq> [CHR 0x0A]"
  proof
    assume "dropWhile is_digit (c # cs) = [CHR 0x0A]"
    then have "CHR 0x0A \<in> set (dropWhile is_digit (c # cs))" by simp
    then have "CHR 0x0A \<in> set (c # cs)" by (rule set_dropWhileD)
    with Cons.prems show False by simp
  qed
  show ?case
  proof (cases "\<forall>x \<in> set (c # cs). is_digit x")
    case True
    then have "takeWhile is_digit (c # cs) = c # cs" "dropWhile is_digit (c # cs) = []"
      by (simp_all add: takeWhile_eq_all_conv)
    moreover from True have "trailing_digits (c # cs) = c # cs"
      by (simp add: trailing_digits_Cons)
    ultimately show ?thesis by (simp add: Let_def)
  next
    case False
    then have "dropWhile is_digit (c # cs) \<noteq> []"
      by (simp only: dropWhile_eq_Nil_conv not_False_eq_True)
    moreover have "trailing_digits (c # cs) = trailing_digits cs"
      unfolding trailing_digits_Cons using False by (simp only: if_False)
    moreover from Cons.prems have "c \<noteq> CHR 0x0A" "CHR 0x0A \<notin> set cs" by auto
    ultimately show ?thesis using nl Cons.IH by (auto simp: Let_def)
  qed
qed

lemma re_sub_no_newline:
  "CHR 0x0A \<notin> set s \<Longrightarrow>
   re_sub s = (if trailing_digits s = [] then s else trailing_digits s)"
proof (induction s)
  case Nil
  then show ?case by (simp add: trailing_digits_def)
next
  case (Cons c cs)
  from Cons.prems have nl: "CHR 0x0A \<notin> set cs" by simp
  show ?case
  proof (cases "trailing_digits (c # cs) = []")
    case True
    then have "\<not> (\<forall>x \<in> set (c # cs). is_digit x)" and "trailing_digits cs = []"
      by (auto simp: trailing_digits_Cons split: if_splits)
    with True Cons.IH [OF nl] re_match_no_newline [OF Cons.prems] show ?thesis
      by (simp del: re_match.simps)
  next
    case False
    with re_match_no_newline [OF Cons.prems] show ?thesis
      by (simp del: re_match.simps)
  qed
qed

lemma digit_not_space: "is_digit c \<Longrightarrow> \<not> is_space c"
  by (auto simp: is_digit_def is_space_def)

lemma digit_not_sign: "is_digit c \<Longrightarrow> c \<noteq> CHR ''-'' \<and> c \<noteq> CHR ''+'' \<and> c \<noteq> CHR ''_''"
  by (auto simp: is_digit_def)

lemma int_body_ok_digits: "ds \<noteq> [] \<Longrightarrow> \<forall>x \<in> set ds. is_digit x \<Longrightarrow> int_body_ok ds"
  by (induction ds rule: int_body_ok.induct) (auto dest: digit_not_sign)

lemma int_body_ok_last: "int_body_ok b \<Longrightarrow> b \<noteq> [] \<and> is_digit (last b)"
  by (induction b rule: int_body_ok.induct) (auto split: if_splits)

lemma strip_digits: "ds \<noteq> [] \<Longrightarrow> \<forall>x \<in> set ds. is_digit x \<Longrightarrow> strip ds = ds"
proof -
  assume ne: "ds \<noteq> []" and all: "\<forall>x \<in> set ds. is_digit x"
  from ne all have "\<not> is_space (hd ds)" by (cases ds) (auto dest: digit_not_space)
  with ne have a: "dropWhile is_space ds = ds" by (cases ds) auto
  from ne all have "\<not> is_space (hd (rev ds))"
    by (cases ds rule: rev_cases) (auto dest: digit_not_space)
  with ne have "dropWhile is_space (rev ds) = rev ds" by (cases "rev ds") auto
  with a show ?thesis by (simp add: strip_def)
qed

lemma py_int_digits:
  assumes "ds \<noteq> []" "\<forall>x \<in> set ds. is_digit x" "length ds \<le> int_max_str_digits"
  shows "py_int ds = Inr (int (digits_value ds))"
proof -
  from assms have "filter is_digit ds = ds" by simp
  moreover from assms have "hd ds \<noteq> CHR ''-''" "hd ds \<noteq> CHR ''+''"
    by (cases ds; auto dest: digit_not_sign)+
  ultimately show ?thesis
    using assms by (simp add: py_int_def strip_digits int_body_ok_digits Let_def)
qed

lemma strip_last:
  assumes "s \<noteq> []" "\<not> is_space (last s)"
  shows "strip s \<noteq> [] \<and> last (strip s) = last s"
proof -
  obtain ys y where s: "s = ys @ [y]" using assms(1) by (cases s rule: rev_cases) auto
  with assms(2) have y: "\<not> is_space y" by simp
  have "dropWhile is_space s = dropWhile is_space ys @ [y] \<or> (\<exists>zs. dropWhile is_space s = zs @ [y])"
    using y unfolding s by (induction ys) auto
  then obtain zs where d: "dropWhile is_space s = zs @ [y]" by auto
  then have "strip s = zs @ [y]" using y by (simp add: strip_def)
  then show ?thesis by (simp add: s)
qed

lemma py_int_no_digit_end:
  assumes "s = [] \<or> (\<not> is_digit (last s) \<and> \<not> is_space (last s))"
  shows "py_int s = Inl ValueError"
proof (cases "s = []")
  case True
  then show ?thesis by (simp add: py_int_def strip_def)
next
  case False
  with assms have nd: "\<not> is_digit (last s)" and ns: "\<not> is_space (last s)" by auto
  from strip_last [OF False ns] have t: "strip s \<noteq> []" "last (strip s) = last s" by auto
  define body where "body = (if hd (strip s) = CHR ''-'' \<or> hd (strip s) = CHR ''+'' then tl (strip s) else strip s)"
  have "\<not> int_body_ok body"
  proof
    assume ok: "int_body_ok body"
    then have b: "body \<noteq> []" "is_digit (last body)" using int_body_ok_last by auto
    have "last body = last (strip s)"
      using b(1) t(1) unfolding body_def by (auto simp: last_tl split: if_splits)
    with b(2) t(2) nd show False by simp
  qed
  then show ?thesis using t(1) by (simp add: py_int_def Let_def body_def)
qed

text \<open>
  Claim C3, as amended. For a value whose string form holds no line feed, does not end in
  white space and ends in at most 4300 digits, \<open>as_int\<close> returns the number written by
  the trailing run of decimal digits of the string form, and 0 when there is no such run;
  an absent value has the string form \<open>None\<close> and gives 0.
\<close>

theorem as_int_trailing_digits:
  assumes "CHR 0x0A \<notin> set (py_str v)"
    and "py_str v = [] \<or> \<not> is_space (last (py_str v))"
    and "length (trailing_digits (py_str v)) \<le> int_max_str_digits"
  shows "as_int v = (if trailing_digits (py_str v) = [] then 0
                     else int (digits_value (trailing_digits (py_str v))))"
proof (cases "trailing_digits (py_str v) = []")
  case True
  with assms(1) have "re_sub (py_str v) = py_str v" by (simp add: re_sub_no_newline)
  moreover from True assms(2) have "py_int (py_str v) = Inl ValueError"
    by (intro py_int_no_digit_end) (auto simp: trailing_digits_Nil_iff)
  ultimately show ?thesis using True by (simp add: as_int_def)
next
  case False
  with assms(1) have "re_sub (py_str v) = trailing_digits (py_str v)"
    by (simp add: re_sub_no_newline)
  moreover have "py_int (trailing_digits (py_str v)) = Inr (int (digits_value (trailing_digits (py_str v))))"
    using False trailing_digits_all assms(3) by (intro py_int_digits) auto
  ultimately show ?thesis using False by (simp add: as_int_def)
qed


text \<open>
  The four values the specification lists, each from the theorem above: \<open>"abc123"\<close>
  gives 123, \<open>"abc"\<close> gives 0, \<open>None\<close> gives 0 and \<open>-5\<close> gives 5.
\<close>

lemma py_str_neg5: "py_str (PInt (- 5)) = ''-5''"
  by (simp add: str_nat.simps [of 5] digit_char_def)

theorem as_int_examples:
  "as_int (PStr ''abc123'') = 123 \<and> as_int (PStr ''abc'') = 0 \<and> as_int PNone = 0 \<and>
   as_int (PInt (- 5)) = 5"
proof -
  have a: "as_int (PStr ''abc123'') = 123"
    using as_int_trailing_digits [of "PStr ''abc123''"]
    by (simp add: trailing_digits_def is_digit_def is_space_def digits_value_def digit_val_def
        int_max_str_digits_def)
  have b: "as_int (PStr ''abc'') = 0"
    using as_int_trailing_digits [of "PStr ''abc''"]
    by (simp add: trailing_digits_def is_digit_def is_space_def int_max_str_digits_def)
  have c: "as_int PNone = 0"
    using as_int_trailing_digits [of PNone]
    by (simp add: trailing_digits_def is_digit_def is_space_def int_max_str_digits_def)
  have d: "as_int (PInt (- 5)) = 5"
    using as_int_trailing_digits [of "PInt (- 5)"]
    by (simp add: py_str_neg5 trailing_digits_def is_digit_def is_space_def digits_value_def
        digit_val_def int_max_str_digits_def del: py_str.simps)
  from a b c d show ?thesis by simp
qed

text \<open>
  Claim C3 as it is written fails without the two conditions on the text. \<open>"12 "\<close> ends in
  a space, so it has no trailing run of digits, and \<open>re.sub\<close> finds no match; \<open>int\<close>
  drops the space and reads 12, where the claim says 0.
\<close>

theorem as_int_trailing_space:
  "trailing_digits (py_str (PStr ''12 '')) = [] \<and> as_int (PStr ''12 '') = 12"
  by (simp add: trailing_digits_def as_int_def py_int_def strip_def is_digit_def is_space_def
      digits_value_def digit_val_def int_max_str_digits_def Let_def)

text \<open>
  A line feed inside the text: the pattern cannot reach the final 5 from the start, only
  the 5 itself is matched and replaced by itself, and \<open>int\<close> refuses the whole text.
\<close>

lemma as_int_inner_newline:
  "trailing_digits (py_str (PStr [CHR ''a'', CHR 0x0A, CHR ''5''])) = ''5'' \<and>
   as_int (PStr [CHR ''a'', CHR 0x0A, CHR ''5'']) = 0"
  by (simp add: trailing_digits_def as_int_def py_int_def strip_def is_digit_def is_space_def
      digits_value_def digit_val_def int_max_str_digits_def Let_def)

section \<open>Properties of the extractor\<close>

subsection \<open>The scan of the first row\<close>

lemma scan_header_stops_first:
  assumes "cell_value s 1 1 = PNone" and "\<not> is_merged s 1 1"
  shows "scan_header s [0..<n] None = None"
proof (cases n)
  case 0
  then show ?thesis by simp
next
  case (Suc m)
  then have "[0..<n] = 0 # [1..<n]" by (simp add: upt_conv_Cons)
  with assms show ?thesis by simp
qed

text \<open>
  Claim C10. When the cell at row 1, column 1 is blank and in no merged region, the
  constructor leaves \<open>max_column\<close> at \<open>None\<close>, and \<open>iter\<close>, whatever its parameters, ends
  with a \<open>TypeError\<close> raised while the end coordinate is built, before any record.
\<close>

theorem blank_first_cell_no_iteration:
  assumes "cell_value s 1 1 = PNone" and "\<not> is_merged s 1 1"
  shows "max_column (init s) = None \<and>
         iter (init s) today start_row start_col type_row name_row date_row company_col
           = ([], Some TypeError)"
  using scan_header_stops_first [OF assms] by (simp add: init_def iter_def)

theorem blank_first_cell_no_iteration_witness:
  "cell_value empty_sheet 1 1 = PNone \<and> \<not> is_merged empty_sheet 1 1 \<and>
   max_column (init empty_sheet) = None \<and>
   iter (init empty_sheet) 738886 4 3 1 2 3 2 = ([], Some TypeError)"
proof -
  have h1: "cell_value empty_sheet 1 1 = PNone" by (simp add: empty_sheet_def)
  have h2: "\<not> is_merged empty_sheet 1 1" by (simp add: empty_sheet_def is_merged_def)
  from blank_first_cell_no_iteration [OF h1 h2, of 738886 4 3 1 2 3 2] h1 h2
  show ?thesis by simp
qed

lemma scan_header_takeWhile:
  "scan_header s xs mc =
     (let pre = takeWhile (\<lambda>i. \<not> scan_stops s (i + 1)) xs
      in if pre = [] then mc else Some (last pre + 1))"
  by (induction xs arbitrary: mc) (auto simp: scan_stops_def Let_def)

lemma takeWhile_upt_prefix:
  "takeWhile P [0..<n] = [0..<length (takeWhile P [0..<n])]"
proof -
  have "takeWhile P [0..<n] = take (length (takeWhile P [0..<n])) [0..<n]"
    by (rule takeWhile_eq_take)
  also have "\<dots> = [0..<length (takeWhile P [0..<n])]"
    using length_takeWhile_le [of P "[0..<n]"] by (simp add: take_upt)
  finally show ?thesis .
qed

lemma max_column_scanned:
  "max_column (init s) = (if scanned s = 0 then None else Some (scanned s))"
proof -
  let ?P = "\<lambda>i. \<not> scan_stops s (i + 1)"
  let ?pre = "takeWhile ?P [0..<sheet_max_column s]"
  have pre: "?pre = [0..<scanned s]"
    unfolding scanned_def by (rule takeWhile_upt_prefix)
  show ?thesis
  proof (cases "scanned s")
    case 0
    with pre show ?thesis by (simp add: init_def scan_header_takeWhile)
  next
    case (Suc k)
    with pre have "?pre \<noteq> []" "last ?pre = k" by simp_all
    with Suc show ?thesis by (simp add: init_def scan_header_takeWhile)
  qed
qed

lemma scanned_le: "scanned s \<le> sheet_max_column s"
  unfolding scanned_def using length_takeWhile_le [of _ "[0..<sheet_max_column s]"] by simp

lemma scanned_not_stops:
  assumes "1 \<le> c" "c \<le> scanned s"
  shows "\<not> scan_stops s c"
proof -
  let ?P = "\<lambda>i. \<not> scan_stops s (i + 1)"
  let ?pre = "takeWhile ?P [0..<sheet_max_column s]"
  have pre: "?pre = [0..<scanned s]"
    unfolding scanned_def by (rule takeWhile_upt_prefix)
  from assms have "c - 1 \<in> set [0..<scanned s]" by simp
  with pre have "c - 1 \<in> set ?pre" by simp
  then have "?P (c - 1)" by (rule set_takeWhileD [THEN conjunct2])
  with assms show ?thesis by simp
qed

lemma scanned_next_stops:
  assumes "scanned s < sheet_max_column s"
  shows "scan_stops s (scanned s + 1)"
proof -
  let ?P = "\<lambda>i. \<not> scan_stops s (i + 1)"
  from assms have "length (takeWhile ?P [0..<sheet_max_column s]) < length [0..<sheet_max_column s]"
    by (simp add: scanned_def)
  then have "\<not> ?P ([0..<sheet_max_column s] ! length (takeWhile ?P [0..<sheet_max_column s]))"
    by (rule nth_length_takeWhile)
  with assms show ?thesis by (simp add: scanned_def)
qed

lemma scanned_ge:
  assumes "k \<le> sheet_max_column s" "\<forall>c. 1 \<le> c \<and> c \<le> k \<longrightarrow> \<not> scan_stops s c"
  shows "k \<le> scanned s"
proof (rule ccontr)
  assume "\<not> k \<le> scanned s"
  then have lt: "scanned s < k" by simp
  with assms(1) have "scan_stops s (scanned s + 1)" by (intro scanned_next_stops) simp
  moreover from lt assms(2) have "\<not> scan_stops s (scanned s + 1)" by simp
  ultimately show False by simp
qed

lemma region_cols: "(r, c) \<in> set (region r1 c1 r2 c2) \<Longrightarrow> c1 \<le> c \<and> c \<le> c2 \<and> r1 \<le> r \<and> r \<le> r2"
  by (auto simp: region_def)

text \<open>
  Claim C4, as amended. The constructor scans row 1 from column 1 and stops at the first
  cell that is blank and in no merged region (or at the sheet's last column);
  \<open>max_column\<close> is the last column whose cell did not stop the scan, and stays \<open>None\<close>
  when there is none. On every sheet whose cell D1 is blank and unmerged, \<open>max_column\<close>,
  when it is set, lies left of D, and so does every cell of the region the iteration runs
  over. When moreover the cells A1, B1 and C1 do not stop the scan (each holds a value or
  is merged, so the sheet has at least three columns), \<open>max_column\<close> is C and the
  iteration runs over the region that ends at column C.
\<close>

theorem max_column_scan:
  "(case max_column (init s) of
      None \<Rightarrow> sheet_max_column s = 0 \<or> scan_stops s 1
    | Some k \<Rightarrow> 1 \<le> k \<and> k \<le> sheet_max_column s \<and>
        (\<forall>c. 1 \<le> c \<and> c \<le> k \<longrightarrow> \<not> scan_stops s c) \<and>
        (k < sheet_max_column s \<longrightarrow> scan_stops s (k + 1))) \<and>
   (scan_stops s (column_index_from_string ''D'') \<longrightarrow>
      (\<forall>k. max_column (init s) = Some k \<longrightarrow>
         k < column_index_from_string ''D'' \<and>
         (\<forall>cell \<in> set (region start_row start_col (sheet_max_row s) k).
            snd cell < column_index_from_string ''D''))) \<and>
   (3 \<le> sheet_max_column s \<and> \<not> scan_stops s 1 \<and> \<not> scan_stops s 2 \<and> \<not> scan_stops s 3 \<and>
    scan_stops s (column_index_from_string ''D'') \<longrightarrow>
      max_column (init s) = Some (column_index_from_string ''C'') \<and>
      iter (init s) today start_row start_col type_row name_row date_row company_col =
        iter_cells (init s) today type_row name_row date_row company_col (PNone, PNone, PNone)
          (region start_row start_col (sheet_max_row s) (column_index_from_string ''C'')) \<and>
      (\<forall>cell \<in> set (region start_row start_col (sheet_max_row s) (column_index_from_string ''C'')).
         snd cell < column_index_from_string ''D''))"
proof -
  have general: "(case max_column (init s) of
      None \<Rightarrow> sheet_max_column s = 0 \<or> scan_stops s 1
    | Some k \<Rightarrow> 1 \<le> k \<and> k \<le> sheet_max_column s \<and>
        (\<forall>c. 1 \<le> c \<and> c \<le> k \<longrightarrow> \<not> scan_stops s c) \<and>
        (k < sheet_max_column s \<longrightarrow> scan_stops s (k + 1)))"
  proof (cases "scanned s = 0")
    case True
    have "sheet_max_column s = 0 \<or> scan_stops s 1"
    proof (cases "sheet_max_column s = 0")
      case False
      with True have "scan_stops s (scanned s + 1)" by (intro scanned_next_stops) simp
      with True show ?thesis by simp
    qed simp
    with True show ?thesis by (simp add: max_column_scanned)
  next
    case False
    then show ?thesis
      using scanned_le [of s] scanned_not_stops [of _ s] scanned_next_stops [of s]
      by (simp add: max_column_scanned)
  qed
  have cd: "column_index_from_string ''C'' = 3" "column_index_from_string ''D'' = 4"
    by (simp_all add: column_index_from_string_def)
  have below: "k < 4" if stop: "scan_stops s 4" and k: "max_column (init s) = Some k" for k
  proof (rule ccontr)
    assume "\<not> k < 4"
    moreover from k have "k = scanned s" by (simp add: max_column_scanned split: if_splits)
    ultimately have "\<not> scan_stops s 4" by (intro scanned_not_stops) simp_all
    with stop show False by simp
  qed
  have excluded: "k < 4 \<and> (\<forall>cell \<in> set (region start_row start_col (sheet_max_row s) k). snd cell < 4)"
    if "scan_stops s 4" and "max_column (init s) = Some k" for k
    using below [OF that] by (auto dest: region_cols)
  have particular: "max_column (init s) = Some 3"
    if h: "3 \<le> sheet_max_column s" "\<not> scan_stops s 1" "\<not> scan_stops s 2" "\<not> scan_stops s 3"
      "scan_stops s 4"
  proof -
    have "\<forall>c. 1 \<le> c \<and> c \<le> 3 \<longrightarrow> \<not> scan_stops s c"
    proof (intro allI impI)
      fix c :: nat assume "1 \<le> c \<and> c \<le> 3"
      then have "c = 1 \<or> c = 2 \<or> c = 3" by arith
      with h show "\<not> scan_stops s c" by auto
    qed
    with h(1) have ge: "3 \<le> scanned s" by (intro scanned_ge) simp_all
    have "\<not> 4 \<le> scanned s"
    proof
      assume "4 \<le> scanned s"
      then have "\<not> scan_stops s 4" by (intro scanned_not_stops) simp_all
      with h(5) show False by simp
    qed
    with ge have "scanned s = 3" by simp
    then show ?thesis by (simp add: max_column_scanned)
  qed
  have third: "max_column (init s) = Some 3 \<and>
      iter (init s) today start_row start_col type_row name_row date_row company_col =
        iter_cells (init s) today type_row name_row date_row company_col (PNone, PNone, PNone)
          (region start_row start_col (sheet_max_row s) 3) \<and>
      (\<forall>cell \<in> set (region start_row start_col (sheet_max_row s) 3). snd cell < 4)"
    if "3 \<le> sheet_max_column s \<and> \<not> scan_stops s 1 \<and> \<not> scan_stops s 2 \<and> \<not> scan_stops s 3 \<and>
        scan_stops s 4"
    using particular that by (auto simp: iter_def init_def dest: region_cols)
  show ?thesis
    unfolding cd using general excluded third by blast
qed

text \<open>
  Claim C4 as it is written names only the blank, unmerged cell in column D. That is not
  enough for \<open>max_column\<close> to be C: on an empty sheet D1 is blank and unmerged, the scan
  stops at A1 and \<open>max_column\<close> stays \<open>None\<close>.
\<close>

theorem blank_column_D_alone_counterexample:
  "scan_stops empty_sheet (column_index_from_string ''D'') \<and>
   max_column (init empty_sheet) = None \<and>
   max_column (init empty_sheet) \<noteq> Some (column_index_from_string ''C'')"
  by (simp add: scan_stops_def empty_sheet_def is_merged_def init_def column_index_from_string_def)

lemma boundary_run:
  "iter (init boundary_sheet) 738886 4 3 1 2 3 2 = ([(PStr ''revenue'', PStr ''none'', 738886, 100, 7)], None)"
  by code_simp

theorem max_column_scan_witness:
  "3 \<le> sheet_max_column boundary_sheet \<and> \<not> scan_stops boundary_sheet 1 \<and>
   \<not> scan_stops boundary_sheet 2 \<and> \<not> scan_stops boundary_sheet 3 \<and>
   scan_stops boundary_sheet (column_index_from_string ''D'') \<and>
   max_column (init boundary_sheet) = Some (column_index_from_string ''C'') \<and>
   iter (init boundary_sheet) 738886 4 3 1 2 3 2 =
     ([(PStr ''revenue'', PStr ''none'', 738886, 100, 7)], None)"
proof -
  have d: "column_index_from_string ''D'' = 4" by (simp add: column_index_from_string_def)
  have h: "3 \<le> sheet_max_column boundary_sheet" "\<not> scan_stops boundary_sheet 1"
    "\<not> scan_stops boundary_sheet 2" "\<not> scan_stops boundary_sheet 3"
    "scan_stops boundary_sheet (column_index_from_string ''D'')"
    by (simp_all add: d scan_stops_def boundary_sheet_def cells_of_def is_merged_def)
  from max_column_scan [of boundary_sheet 738886 4 3 1 2 3 2] h
  have "max_column (init boundary_sheet) = Some (column_index_from_string ''C'')" by simp
  with h boundary_run show ?thesis by (intro conjI)
qed

subsection \<open>The records and the carried headers\<close>

lemma sheet_init [simp]: "sheet (init s) = s"
  by (simp add: init_def)

lemma length_carried_headers [simp]: "length (carried_headers p h d cols) = length cols"
  by (induction cols arbitrary: d) simp_all

lemma carried_headers_Nil_iff [simp]: "carried_headers p h d cols = [] \<longleftrightarrow> cols = []"
  by (cases cols) simp_all

lemma carried_headers_nth:
  "j < length cols \<Longrightarrow>
   carried_headers p h d cols ! j =
     get_cell_value p h (cols ! j) (if j = 0 then d else carried_headers p h d cols ! (j - 1))"
proof (induction cols arbitrary: d j)
  case Nil
  then show ?case by simp
next
  case (Cons c cs)
  show ?case
  proof (cases j)
    case 0
    then show ?thesis by simp
  next
    case (Suc k)
    with Cons.prems have k: "k < length cs" by simp
    show ?thesis
    proof (cases k)
      case 0
      with Suc k Cons.IH [OF k, of "get_cell_value p h c d"] show ?thesis by simp
    next
      case (Suc m)
      with \<open>j = Suc k\<close> k Cons.IH [OF k, of "get_cell_value p h c d"] show ?thesis by simp
    qed
  qed
qed

lemma carried_headers_append:
  "carried_headers p h d (xs @ ys) =
     carried_headers p h d xs @
     carried_headers p h (if xs = [] then d else last (carried_headers p h d xs)) ys"
  by (induction xs arbitrary: d) auto

lemma iter_cells_length:
  "length (fst (iter_cells p today tr nr dr cc carried cells)) \<le> length cells"
proof (induction cells arbitrary: carried)
  case Nil
  then show ?case by simp
next
  case (Cons cell cells)
  obtain t n d where c: "carried = (t, n, d)" by (cases carried) auto
  obtain row col where rc: "cell = (row, col)" by (cases cell) auto
  show ?case
    unfolding c rc using Cons.IH by (simp add: Let_def split: sum.split)
qed

lemma iter_cells_records:
  "i < length (fst (iter_cells p today tr nr dr cc (t, n, d) cells)) \<Longrightarrow>
   record_type (fst (iter_cells p today tr nr dr cc (t, n, d) cells) ! i)
     = carried_headers p tr t (map snd cells) ! i \<and>
   record_name (fst (iter_cells p today tr nr dr cc (t, n, d) cells) ! i)
     = carried_headers p nr n (map snd cells) ! i \<and>
   date_add today (as_int (carried_headers p dr d (map snd cells) ! i))
     = Inr (record_date (fst (iter_cells p today tr nr dr cc (t, n, d) cells) ! i)) \<and>
   record_value (fst (iter_cells p today tr nr dr cc (t, n, d) cells) ! i)
     = as_int (cell_value (sheet p) (fst (cells ! i)) (snd (cells ! i))) \<and>
   record_company_id (fst (iter_cells p today tr nr dr cc (t, n, d) cells) ! i)
     = as_int (cell_value (sheet p) (fst (cells ! i)) cc)"
proof (induction cells arbitrary: t n d i)
  case Nil
  then show ?case by simp
next
  case (Cons cell cells)
  obtain row col where rc: "cell = (row, col)" by (cases cell) auto
  let ?t = "get_cell_value p tr col t" and ?n = "get_cell_value p nr col n"
    and ?d = "get_cell_value p dr col d"
  show ?case
  proof (cases "date_add today (as_int ?d)")
    case (Inl e)
    with Cons.prems show ?thesis by (simp add: rc Let_def)
  next
    case (Inr day)
    show ?thesis
    proof (cases i)
      case 0
      with Inr show ?thesis
        by (simp add: rc Let_def record_type_def record_name_def record_date_def
            record_value_def record_company_id_def)
    next
      case (Suc k)
      with Cons.prems Inr
      have "k < length (fst (iter_cells p today tr nr dr cc (?t, ?n, ?d) cells))"
        by (simp add: rc Let_def)
      from Cons.IH [OF this] Suc Inr show ?thesis by (simp add: rc Let_def)
    qed
  qed
qed

lemma map_snd_region:
  "map snd (region r1 c1 r2 c2) = concat (map (\<lambda>r. [c1..<Suc c2]) [r1..<Suc r2])"
  by (simp add: region_def map_concat comp_def)

lemma lower_None: "lower ''None'' = ''none''"
  by code_simp

lemma as_int_none: "as_int (PStr ''none'') = 0"
  by code_simp

lemma get_cell_value_blank_unmerged:
  "cell_value (sheet p) row col = PNone \<Longrightarrow> \<not> is_merged (sheet p) row col \<Longrightarrow>
   get_cell_value p row col d = PStr ''none''"
  by (simp add: get_cell_value_def lower_None)

lemma date_add_zero: "date_add today 0 = Inr d \<Longrightarrow> d = today"
  by (simp add: date_add_def split: if_splits)

text \<open>
  Claim C9. For a cell that is blank and in no merged region, \<open>get_cell_value\<close> returns
  the text \<open>none\<close>, whatever the carried default is. Consequently a record whose column
  has such a cell in the type row has the type \<open>none\<close>, in the name row the name
  \<open>none\<close>, and in the date row the date \<open>today + 0\<close>.
\<close>

theorem blank_unmerged_header_reads_none:
  assumes "cell_value (sheet p) row col = PNone" and "\<not> is_merged (sheet p) row col"
  shows "get_cell_value p row col d = PStr ''none'' \<and>
    (\<forall>i r. max_column p = Some ec \<and>
        i < length (fst (iter p today sr sc tr nr dr cc)) \<and>
        region sr sc (sheet_max_row (sheet p)) ec ! i = (r, col) \<longrightarrow>
          (row = tr \<longrightarrow> record_type (fst (iter p today sr sc tr nr dr cc) ! i) = PStr ''none'') \<and>
          (row = nr \<longrightarrow> record_name (fst (iter p today sr sc tr nr dr cc) ! i) = PStr ''none'') \<and>
          (row = dr \<longrightarrow> record_date (fst (iter p today sr sc tr nr dr cc) ! i) = today + 0))"
proof (intro conjI allI impI)
  show "get_cell_value p row col d = PStr ''none''"
    using assms by (rule get_cell_value_blank_unmerged)
next
  fix i r
  assume h: "max_column p = Some ec \<and>
        i < length (fst (iter p today sr sc tr nr dr cc)) \<and>
        region sr sc (sheet_max_row (sheet p)) ec ! i = (r, col)"
  let ?cells = "region sr sc (sheet_max_row (sheet p)) ec"
  let ?run = "iter_cells p today tr nr dr cc (PNone, PNone, PNone) ?cells"
  from h have run: "iter p today sr sc tr nr dr cc = ?run" by (simp add: iter_def)
  with h have i: "i < length (fst ?run)" by simp
  with iter_cells_length [of p today tr nr dr cc "(PNone, PNone, PNone)" ?cells]
  have il: "i < length ?cells" by simp
  with h have col: "map snd ?cells ! i = col" by simp
  note recs = iter_cells_records [OF i]
  have none: "carried_headers p row d0 (map snd ?cells) ! i = PStr ''none''" for d0
    using il col assms by (simp add: carried_headers_nth get_cell_value_blank_unmerged)
  show "row = tr \<Longrightarrow> record_type (fst (iter p today sr sc tr nr dr cc) ! i) = PStr ''none''"
    using recs none run by simp
  show "row = nr \<Longrightarrow> record_name (fst (iter p today sr sc tr nr dr cc) ! i) = PStr ''none''"
    using recs none run by simp
  show "row = dr \<Longrightarrow> record_date (fst (iter p today sr sc tr nr dr cc) ! i) = today + 0"
  proof -
    assume "row = dr"
    with recs none have "date_add today 0 = Inr (record_date (fst ?run ! i))"
      by (simp add: as_int_none)
    then show ?thesis using run by (simp add: date_add_zero)
  qed
qed

theorem blank_unmerged_header_reads_none_witness:
  "cell_value (sheet (init boundary_sheet)) 2 3 = PNone \<and>
   \<not> is_merged (sheet (init boundary_sheet)) 2 3 \<and>
   get_cell_value (init boundary_sheet) 2 3 (PStr ''carried'') = PStr ''none'' \<and>
   record_name (fst (iter (init boundary_sheet) 738886 4 3 1 2 3 2) ! 0) = PStr ''none''"
proof -
  let ?p = "init boundary_sheet"
  have h: "cell_value (sheet ?p) 2 3 = PNone" "\<not> is_merged (sheet ?p) 2 3"
    by (simp_all add: boundary_sheet_def cells_of_def is_merged_def)
  have mc: "max_column ?p = Some 3" by code_simp
  have cell: "region 4 3 (sheet_max_row (sheet ?p)) 3 ! 0 = (4, 3)" by code_simp
  have i: "0 < length (fst (iter ?p 738886 4 3 1 2 3 2))" by code_simp
  from blank_unmerged_header_reads_none [OF h, of "PStr ''carried''" 3 738886 4 3 1 2 3 2]
  have "get_cell_value ?p 2 3 (PStr ''carried'') = PStr ''none''"
    and "record_name (fst (iter ?p 738886 4 3 1 2 3 2) ! 0) = PStr ''none''"
    using mc cell i by auto
  with h show ?thesis by (intro conjI)
qed

subsection \<open>Headers of a merged region\<close>

lemma is_merged_member:
  "mr \<in> set (merged_ranges s) \<Longrightarrow> in_range mr row col \<Longrightarrow> is_merged s row col"
proof -
  have "mr \<in> set mrs \<Longrightarrow> in_range mr row col \<Longrightarrow> is_merged_in mrs row col" for mrs
    by (induction mrs) auto
  then show "mr \<in> set (merged_ranges s) \<Longrightarrow> in_range mr row col \<Longrightarrow> is_merged s row col"
    by (simp add: is_merged_def)
qed

lemma carried_headers_span_row:
  assumes anchor: "\<And>d. get_cell_value p h a d = target"
    and inside: "\<And>c d. a < c \<Longrightarrow> c \<le> b \<Longrightarrow> get_cell_value p h c d = d"
    and start: "lo \<le> a"
    and j: "j < length [lo..<hi]" "a \<le> [lo..<hi] ! j" "[lo..<hi] ! j \<le> b"
  shows "carried_headers p h d [lo..<hi] ! j = target"
proof -
  have "\<And>j. j < length [lo..<hi] \<Longrightarrow> [lo..<hi] ! j = a + k \<Longrightarrow> a + k \<le> b \<Longrightarrow>
      carried_headers p h d [lo..<hi] ! j = target" for k
  proof (induction k)
    case 0
    then show ?case by (simp add: carried_headers_nth anchor del: upt_Suc)
  next
    case (Suc k)
    from Suc.prems(1,2) start have j1: "j - 1 < length [lo..<hi]" and pos: "0 < j"
      and prev: "[lo..<hi] ! (j - 1) = a + k" by auto
    from Suc.IH [OF j1 prev] Suc.prems(3)
    have "carried_headers p h d [lo..<hi] ! (j - 1) = target" by simp
    moreover have "get_cell_value p h (a + Suc k) target = target"
      using Suc.prems(3) by (intro inside) simp_all
    ultimately show ?case
      using Suc.prems(1,2) pos by (simp add: carried_headers_nth del: upt_Suc)
  qed
  from this [of j "[lo..<hi] ! j - a"] j show ?thesis by simp
qed

lemma carried_headers_span_rows:
  assumes anchor: "\<And>d. get_cell_value p h a d = target"
    and inside: "\<And>c d. a < c \<Longrightarrow> c \<le> b \<Longrightarrow> get_cell_value p h c d = d"
    and start: "lo \<le> a"
  shows "j < length (concat (map (\<lambda>r. [lo..<hi]) rows)) \<Longrightarrow>
         a \<le> concat (map (\<lambda>r. [lo..<hi]) rows) ! j \<Longrightarrow>
         concat (map (\<lambda>r. [lo..<hi]) rows) ! j \<le> b \<Longrightarrow>
         carried_headers p h d (concat (map (\<lambda>r. [lo..<hi]) rows)) ! j = target"
proof (induction rows arbitrary: d j)
  case Nil
  then show ?case by simp
next
  case (Cons r rows)
  let ?row = "[lo..<hi]" and ?rest = "concat (map (\<lambda>r. [lo..<hi]) rows)"
  show ?case
  proof (cases "j < length ?row")
    case True
    with Cons.prems have "carried_headers p h d ?row ! j = target"
      by (intro carried_headers_span_row [OF anchor inside start]) (simp_all add: nth_append)
    with True show ?thesis by (simp add: carried_headers_append nth_append)
  next
    case False
    with Cons.prems have "j - length ?row < length ?rest"
      "a \<le> ?rest ! (j - length ?row)" "?rest ! (j - length ?row) \<le> b"
      by (simp_all add: nth_append)
    from Cons.IH [OF this] False show ?thesis
      by (simp add: carried_headers_append nth_append)
  qed
qed

text \<open>
  Claim C2, as amended. Take a merged region whose first row is a header row \<open>h\<close>, whose
  anchor cell (row \<open>h\<close>, the region's first column) holds a value and whose other cells
  in row \<open>h\<close> are blank, and let the iteration start at or left of the anchor's column.
  Then every record of a column of the span carries the lower-case string form of the
  anchor's value: as its type when \<open>h\<close> is the type row, as its name when \<open>h\<close> is the
  name row, and as the text its date offset is read from when \<open>h\<close> is the date row.
\<close>

theorem merged_span_header:
  assumes mr: "mr \<in> set (merged_ranges (sheet p))"
    and rows: "min_row mr = h" "h \<le> max_row mr"
    and anchor: "cell_value (sheet p) h (min_col mr) \<noteq> PNone"
    and blank: "\<forall>c. min_col mr < c \<and> c \<le> max_col mr \<longrightarrow> cell_value (sheet p) h c = PNone"
    and start: "sc \<le> min_col mr"
    and mc: "max_column p = Some ec"
    and i: "i < length (fst (iter p today sr sc tr nr dr cc))"
    and col: "region sr sc (sheet_max_row (sheet p)) ec ! i = (r, c)"
      "min_col mr \<le> c" "c \<le> max_col mr"
  shows "(h = tr \<longrightarrow> record_type (fst (iter p today sr sc tr nr dr cc) ! i)
            = PStr (lower (py_str (cell_value (sheet p) h (min_col mr))))) \<and>
         (h = nr \<longrightarrow> record_name (fst (iter p today sr sc tr nr dr cc) ! i)
            = PStr (lower (py_str (cell_value (sheet p) h (min_col mr))))) \<and>
         (h = dr \<longrightarrow> date_add today (as_int (PStr (lower (py_str (cell_value (sheet p) h (min_col mr))))))
            = Inr (record_date (fst (iter p today sr sc tr nr dr cc) ! i)))"
proof -
  let ?target = "PStr (lower (py_str (cell_value (sheet p) h (min_col mr))))"
  let ?cells = "region sr sc (sheet_max_row (sheet p)) ec"
  let ?run = "iter_cells p today tr nr dr cc (PNone, PNone, PNone) ?cells"
  have a: "get_cell_value p h (min_col mr) d = ?target" for d
    using anchor by (simp add: get_cell_value_def)
  have b: "get_cell_value p h c' d = d" if "min_col mr < c'" "c' \<le> max_col mr" for c' d
  proof -
    from that rows have "in_range mr h c'" by (simp add: in_range_def)
    with mr have "is_merged (sheet p) h c'" by (rule is_merged_member)
    moreover from that blank have "cell_value (sheet p) h c' = PNone" by simp
    ultimately show ?thesis by (simp add: get_cell_value_def)
  qed
  from mc have run: "iter p today sr sc tr nr dr cc = ?run" by (simp add: iter_def)
  with i have i': "i < length (fst ?run)" by simp
  with iter_cells_length [of p today tr nr dr cc "(PNone, PNone, PNone)" ?cells]
  have il: "i < length ?cells" by simp
  with col(1) have ci: "map snd ?cells ! i = c" by simp
  let ?cols = "concat (map (\<lambda>r. [sc..<Suc ec]) [sr..<Suc (sheet_max_row (sheet p))])"
  have eq: "map snd ?cells = ?cols" by (rule map_snd_region)
  from il have il': "i < length (map snd ?cells)" by simp
  have hdr: "carried_headers p h d0 (map snd ?cells) ! i = ?target" for d0
    unfolding eq
  proof (rule carried_headers_span_rows [where a = "min_col mr" and b = "max_col mr"])
    show "get_cell_value p h (min_col mr) d = ?target" for d by (rule a)
    show "min_col mr < c' \<Longrightarrow> c' \<le> max_col mr \<Longrightarrow> get_cell_value p h c' d = d" for c' d
      by (rule b)
    show "sc \<le> min_col mr" by (rule start)
    show "i < length ?cols" using il' unfolding eq .
    show "min_col mr \<le> ?cols ! i" using ci col(2) unfolding eq by (simp only:)
    show "?cols ! i \<le> max_col mr" using ci col(3) unfolding eq by (simp only:)
  qed
  note recs = iter_cells_records [OF i']
  show ?thesis
  proof (intro conjI impI)
    assume "h = tr"
    with recs hdr [of PNone] show "record_type (fst (iter p today sr sc tr nr dr cc) ! i) = ?target"
      unfolding run by simp
  next
    assume "h = nr"
    with recs hdr [of PNone] show "record_name (fst (iter p today sr sc tr nr dr cc) ! i) = ?target"
      unfolding run by simp
  next
    assume "h = dr"
    with recs hdr [of PNone]
    show "date_add today (as_int ?target) = Inr (record_date (fst (iter p today sr sc tr nr dr cc) ! i))"
      unfolding run by simp
  qed
qed

theorem merged_span_header_witness:
  "\<lparr>min_col = 3, min_row = 1, max_col = 4, max_row = 1\<rparr> \<in> set (merged_ranges (sheet (init labelled_sheet))) \<and>
   cell_value (sheet (init labelled_sheet)) 1 3 = PStr ''revenue'' \<and>
   cell_value (sheet (init labelled_sheet)) 1 4 = PNone \<and>
   max_column (init labelled_sheet) = Some 4 \<and>
   region 4 3 (sheet_max_row (sheet (init labelled_sheet))) 4 ! 1 = (4, 4) \<and>
   record_type (fst (iter (init labelled_sheet) 738886 4 3 1 2 3 2) ! 1) = PStr ''revenue''"
proof -
  let ?p = "init labelled_sheet"
  let ?mr = "\<lparr>min_col = 3, min_row = 1, max_col = 4, max_row = 1\<rparr>"
  have mr: "?mr \<in> set (merged_ranges (sheet ?p))" by (simp add: labelled_sheet_def)
  have rows: "min_row ?mr = 1" "1 \<le> max_row ?mr" by simp_all
  have c13: "cell_value (sheet ?p) 1 3 = PStr ''revenue''"
    and c14: "cell_value (sheet ?p) 1 4 = PNone"
    by (simp_all add: labelled_sheet_def cells_of_def)
  have anchor: "cell_value (sheet ?p) 1 (min_col ?mr) \<noteq> PNone" using c13 by simp
  have blank: "\<forall>c. min_col ?mr < c \<and> c \<le> max_col ?mr \<longrightarrow> cell_value (sheet ?p) 1 c = PNone"
  proof (intro allI impI)
    fix c :: nat assume "min_col ?mr < c \<and> c \<le> max_col ?mr"
    then have "c = 4" by simp
    with c14 show "cell_value (sheet ?p) 1 c = PNone" by simp
  qed
  have start: "(3::nat) \<le> min_col ?mr" by simp
  have mc: "max_column ?p = Some 4" by code_simp
  have i: "1 < length (fst (iter ?p 738886 4 3 1 2 3 2))" by code_simp
  have cell: "region 4 3 (sheet_max_row (sheet ?p)) 4 ! 1 = (4, 4)" by code_simp
  have col: "min_col ?mr \<le> 4" "4 \<le> max_col ?mr" by simp_all
  have lw: "lower ''revenue'' = ''revenue''" by code_simp
  have target: "PStr (lower (py_str (cell_value (sheet ?p) 1 (min_col ?mr)))) = PStr ''revenue''"
    by code_simp
  from merged_span_header [OF mr rows anchor blank start mc i cell col]
  have "record_type (fst (iter ?p 738886 4 3 1 2 3 2) ! 1) = PStr ''revenue''"
    unfolding target by (simp only: simp_thms)
  with mr c13 c14 mc cell show ?thesis by (intro conjI)
qed

text \<open>
  Claim C2 as it is written fails when the anchor's column is not visited. In
  \<open>carry_sheet\<close> the region B1:C1 has the anchor value \<open>company\<close>; the iteration starts
  at column C, whose header cell is blank and merged, so the first record gets the
  default the iteration starts with, \<open>None\<close>, and not \<open>company\<close>.
\<close>

theorem anchor_left_of_start_not_attributed:
  "\<lparr>min_col = 2, min_row = 1, max_col = 3, max_row = 1\<rparr> \<in> set (merged_ranges carry_sheet) \<and>
   cell_value carry_sheet 1 2 = PStr ''company'' \<and>
   max_column (init carry_sheet) = Some 4 \<and>
   region 4 3 (sheet_max_row carry_sheet) 4 ! 0 = (4, 3) \<and>
   fst (iter_default (init carry_sheet) 738886) ! 0 = (PNone, PStr ''none'', 738886, 1, 7) \<and>
   record_type (fst (iter_default (init carry_sheet) 738886) ! 0)
     \<noteq> PStr (lower (py_str (cell_value carry_sheet 1 2)))"
proof (intro conjI)
  show "\<lparr>min_col = 2, min_row = 1, max_col = 3, max_row = 1\<rparr> \<in> set (merged_ranges carry_sheet)"
    by (simp add: carry_sheet_def)
  show "cell_value carry_sheet 1 2 = PStr ''company''" by code_simp
  show "max_column (init carry_sheet) = Some 4" by code_simp
  show "region 4 3 (sheet_max_row carry_sheet) 4 ! 0 = (4, 3)" by code_simp
  show "fst (iter_default (init carry_sheet) 738886) ! 0 = (PNone, PStr ''none'', 738886, 1, 7)"
    by code_simp
  show "record_type (fst (iter_default (init carry_sheet) 738886) ! 0)
     \<noteq> PStr (lower (py_str (cell_value carry_sheet 1 2)))"
    by code_simp
qed

subsection \<open>What the header fields depend on\<close>

lemma scan_header_agree:
  assumes "\<And>c. cell_value s' 1 c = cell_value s 1 c" and "merged_ranges s' = merged_ranges s"
  shows "scan_header s' xs mc = scan_header s xs mc"
  using assms by (induction xs arbitrary: mc) (simp_all add: is_merged_def)

lemma get_cell_value_agree:
  assumes "\<And>c. cell_value (sheet p') h c = cell_value (sheet p) h c"
    and "merged_ranges (sheet p') = merged_ranges (sheet p)"
  shows "get_cell_value p' h c d = get_cell_value p h c d"
  using assms by (simp add: get_cell_value_def is_merged_def)

lemma iter_cells_agree:
  assumes t: "\<And>c d. get_cell_value p' tr c d = get_cell_value p tr c d"
    and n: "\<And>c d. get_cell_value p' nr c d = get_cell_value p nr c d"
    and d: "\<And>c d. get_cell_value p' dr c d = get_cell_value p dr c d"
  shows "map header_fields (fst (iter_cells p' today tr nr dr cc carried cells)) =
         map header_fields (fst (iter_cells p today tr nr dr cc carried cells)) \<and>
         snd (iter_cells p' today tr nr dr cc carried cells) =
         snd (iter_cells p today tr nr dr cc carried cells)"
proof (induction cells arbitrary: carried)
  case Nil
  then show ?case by simp
next
  case (Cons cell cells)
  obtain ty na da where c: "carried = (ty, na, da)" by (cases carried) auto
  obtain row col where rc: "cell = (row, col)" by (cases cell) auto
  show ?case
    unfolding c rc using Cons.IH
    by (simp add: t n d Let_def header_fields_def record_type_def record_name_def
        record_date_def split: sum.split)
qed

text \<open>
  Claim C5, as amended. Changing the value of a cell that lies neither in row 1 nor in
  one of the three header rows (a data cell) changes neither the type, name and date of
  any record nor the number of records nor the way the iteration ends.
\<close>

theorem data_cell_does_not_change_headers:
  assumes "row \<noteq> 1" and "row \<noteq> tr" and "row \<noteq> nr" and "row \<noteq> dr"
  shows "map header_fields (fst (iter (init (set_cell_value s row col v)) today sr sc tr nr dr cc)) =
         map header_fields (fst (iter (init s) today sr sc tr nr dr cc)) \<and>
         snd (iter (init (set_cell_value s row col v)) today sr sc tr nr dr cc) =
         snd (iter (init s) today sr sc tr nr dr cc)"
proof -
  let ?s' = "set_cell_value s row col v"
  have m: "merged_ranges ?s' = merged_ranges s" "sheet_max_row ?s' = sheet_max_row s"
    "sheet_max_column ?s' = sheet_max_column s"
    by (simp_all add: set_cell_value_def)
  have cells: "cell_value ?s' h c = cell_value s h c" if "row \<noteq> h" for h c
    using that by (simp add: set_cell_value_def)
  have mc: "max_column (init ?s') = max_column (init s)"
    using scan_header_agree [of ?s' s, OF cells [OF assms(1)] m(1)] by (simp add: init_def m)
  have g: "get_cell_value (init ?s') h c d = get_cell_value (init s) h c d" if "row \<noteq> h" for h c d
    using that by (intro get_cell_value_agree) (simp_all add: init_def m cells)
  show ?thesis
  proof (cases "max_column (init s)")
    case None
    with mc show ?thesis by (simp add: iter_def)
  next
    case (Some ec)
    have sh: "sheet (init ?s') = ?s'" "sheet (init s) = s" by (simp_all add: init_def)
    from iter_cells_agree [of "init ?s'" tr "init s" nr dr today cc "(PNone, PNone, PNone)"
        "region sr sc (sheet_max_row s) ec"] g assms Some mc
    show ?thesis by (simp add: iter_def sh m)
  qed
qed

theorem data_cell_does_not_change_headers_witness:
  "(4::nat) \<noteq> 1 \<and> (4::nat) \<noteq> 2 \<and> (4::nat) \<noteq> 3 \<and>
   map header_fields (fst (iter (init (set_cell_value labelled_sheet 4 3 (PStr ''abc''))) 738886 4 3 1 2 3 2)) =
     [(PStr ''revenue'', PStr ''sales'', 738896), (PStr ''revenue'', PStr ''sales'', 738896)] \<and>
   snd (iter (init (set_cell_value labelled_sheet 4 3 (PStr ''abc''))) 738886 4 3 1 2 3 2) = None"
proof -
  have run: "iter (init labelled_sheet) 738886 4 3 1 2 3 2 =
      ([(PStr ''revenue'', PStr ''sales'', 738896, 100, 7),
        (PStr ''revenue'', PStr ''sales'', 738896, 200, 7)], None)"
    by code_simp
  have "(4::nat) \<noteq> 1" "(4::nat) \<noteq> 2" "(4::nat) \<noteq> 3" by simp_all
  note same = data_cell_does_not_change_headers [OF this(1) this(1) this(2) this(3),
      of labelled_sheet 3 "PStr ''abc''" 738886 4 3 2]
  from same [unfolded run] show ?thesis
    by (simp add: header_fields_def record_type_def record_name_def record_date_def)
qed

text \<open>
  Claim C5 as it is written also says that the header fields of a record are determined
  by its column and the header rows of that and earlier columns. They are not: the
  carried values are not reset at the end of a row. In \<open>carry_sheet\<close> the records of the
  cells C4 and C5 are the first and the third; the first has the type \<open>None\<close>, the third
  the type \<open>cost\<close> carried over from column D, so no function of the column gives the
  type.
\<close>

theorem carried_type_not_by_column:
  "\<not> (\<exists>f. \<forall>i < 4. record_type (fst (iter_default (init carry_sheet) 738886) ! i)
          = f (snd (region 4 3 (sheet_max_row carry_sheet) 4 ! i)))"
proof
  assume "\<exists>f. \<forall>i < 4. record_type (fst (iter_default (init carry_sheet) 738886) ! i)
          = f (snd (region 4 3 (sheet_max_row carry_sheet) 4 ! i))"
  then obtain f where f: "\<And>i. i < 4 \<Longrightarrow>
      record_type (fst (iter_default (init carry_sheet) 738886) ! i)
        = f (snd (region 4 3 (sheet_max_row carry_sheet) 4 ! i))" by blast
  have run: "iter_default (init carry_sheet) 738886 =
      ([(PNone, PStr ''none'', 738886, 1, 7), (PStr ''cost'', PStr ''none'', 738886, 2, 7),
        (PStr ''cost'', PStr ''none'', 738886, 3, 8), (PStr ''cost'', PStr ''none'', 738886, 4, 8)],
       None)"
    by code_simp
  have cells: "region 4 3 (sheet_max_row carry_sheet) 4 = [(4, 3), (4, 4), (5, 3), (5, 4)]"
    by code_simp
  from f [of 0] f [of 2] show False
    by (simp add: run cells record_type_def)
qed

end
